theory Spec2Isabelle
  imports Complex_Main "HOL-Library.Multiset" "HOL-Library.Sublist" "HOL-Library.Product_Lexorder"
begin

section \<open>The latency plotter: record loop and two-stage aggregation\<close>

text \<open>
  The program (\<^verbatim>\<open>plotter/main.py\<close>) reads every line of every \<^verbatim>\<open>*.log\<close> file, decodes it
  as JSON, keeps the records that carry \<^verbatim>\<open>fields.latency_in_nanos\<close>, appends four values
  per kept record to four parallel lists, builds a data frame from the lists, sums it by
  (Frame, Object Count), drops the frame, averages it by Object Count and sorts it.

  Conventions of the embedding.
  \<^item> A line is given by what \<^verbatim>\<open>json.loads\<close> makes of it: either the decoder raises, or it
    returns a value. The decoder is Python's; its outcome is the input of the model.
  \<^item> A Python dict is the list of its items; keys are looked up with \<^term>\<open>map_of\<close>.
  \<^item> Python floats are modelled by the rational numbers they denote and float arithmetic by
    exact arithmetic: rounding, overflow to infinity and the values NaN and Infinity are not
    represented.
  \<^item> Strings are byte strings; only ASCII white space and ASCII digits are recognised by
    the model of \<^verbatim>\<open>int(str)\<close>.
  \<^item> The embedding ends at line 33, with the sorted table. The trend fit (\<^verbatim>\<open>np.polyfit\<close>,
    line 35) and the chart are calls into numpy and plotly and are not part of it; nor are
    the listing and the opening of the files.
\<close>

subsection \<open>Decoded JSON values and Python's exceptions\<close>

datatype json =
    JNull
  | JBool bool
  | JInt int
  | JFloat rat
  | JStr string
  | JArr "json list"
  | JObj "(string \<times> json) list"

datatype error = JSONDecodeError | KeyError string | TypeError | ValueError

text \<open>The outcome of \<^verbatim>\<open>json.loads(line)\<close>.\<close>

datatype line = Malformed | Parsed json

definition and_then :: "error + 'a \<Rightarrow> ('a \<Rightarrow> error + 'b) \<Rightarrow> error + 'b" where
  "and_then r f = (case r of Inl e \<Rightarrow> Inl e | Inr v \<Rightarrow> f v)"

text \<open>\<^verbatim>\<open>data[key]\<close> with a string key: a dict looks the key up and raises KeyError when it is
  missing; a list or a string wants an integer index, and the other values cannot be
  subscripted: both raise TypeError.\<close>

fun getitem :: "json \<Rightarrow> string \<Rightarrow> error + json" where
  "getitem (JObj kvs) k = (case map_of kvs k of None \<Rightarrow> Inl (KeyError k) | Some v \<Rightarrow> Inr v)"
| "getitem JNull k = Inl TypeError"
| "getitem (JBool b) k = Inl TypeError"
| "getitem (JInt n) k = Inl TypeError"
| "getitem (JFloat q) k = Inl TypeError"
| "getitem (JStr s) k = Inl TypeError"
| "getitem (JArr xs) k = Inl TypeError"

text \<open>\<^verbatim>\<open>key in value\<close> with a string key: key membership for a dict, element membership for a
  list, substring test for a string, TypeError for a value that is not a container.\<close>

fun contains :: "string \<Rightarrow> json \<Rightarrow> error + bool" where
  "contains k (JObj kvs) = Inr (k \<in> set (map fst kvs))"
| "contains k (JArr xs) = Inr (JStr k \<in> set xs)"
| "contains k (JStr s) = Inr (sublist k s)"
| "contains k JNull = Inl TypeError"
| "contains k (JBool b) = Inl TypeError"
| "contains k (JInt n) = Inl TypeError"
| "contains k (JFloat q) = Inl TypeError"

subsection \<open>\<^verbatim>\<open>int(...)\<close> and true division\<close>

definition is_space :: "char \<Rightarrow> bool" where
  "is_space c = (c \<in> set [CHR 0x09, CHR 0x0A, CHR 0x0B, CHR 0x0C, CHR 0x0D,
                            CHR 0x1C, CHR 0x1D, CHR 0x1E, CHR 0x1F, CHR 0x20])"

definition strip :: "string \<Rightarrow> string" where
  "strip s = rev (dropWhile is_space (rev (dropWhile is_space s)))"

definition digit_of :: "char \<Rightarrow> nat option" where
  "digit_of c =
     (let n = (of_char c :: nat) in if 48 \<le> n \<and> n \<le> 57 then Some (n - 48) else None)"

text \<open>Decimal digits, with single underscores allowed between two digits.\<close>

fun digits_acc :: "nat \<Rightarrow> string \<Rightarrow> nat option" where
  "digits_acc n [] = Some n"
| "digits_acc n [c] = (case digit_of c of None \<Rightarrow> None | Some v \<Rightarrow> Some (10 * n + v))"
| "digits_acc n (c # d # ds) =
     (if c = CHR ''_''
      then (case digit_of d of None \<Rightarrow> None | Some v \<Rightarrow> digits_acc (10 * n + v) ds)
      else (case digit_of c of None \<Rightarrow> None | Some v \<Rightarrow> digits_acc (10 * n + v) (d # ds)))"

definition parse_nat :: "string \<Rightarrow> nat option" where
  "parse_nat s =
     (case s of [] \<Rightarrow> None
      | c # cs \<Rightarrow> (case digit_of c of None \<Rightarrow> None | Some v \<Rightarrow> digits_acc v cs))"

definition int_of_str :: "string \<Rightarrow> error + int" where
  "int_of_str s =
     (case strip s of
        [] \<Rightarrow> Inl ValueError
      | c # cs \<Rightarrow>
          (if c = CHR ''-'' then
             (case parse_nat cs of None \<Rightarrow> Inl ValueError | Some n \<Rightarrow> Inr (- int n))
           else if c = CHR ''+'' then
             (case parse_nat cs of None \<Rightarrow> Inl ValueError | Some n \<Rightarrow> Inr (int n))
           else
             (case parse_nat (c # cs) of None \<Rightarrow> Inl ValueError | Some n \<Rightarrow> Inr (int n))))"

text \<open>\<^verbatim>\<open>int(v)\<close>: an integer is itself, a bool is 0 or 1, a float is truncated towards zero,
  a string is read as a decimal literal (ValueError otherwise); \<^verbatim>\<open>None\<close>, a list and a dict
  raise TypeError.\<close>

fun py_int :: "json \<Rightarrow> error + int" where
  "py_int (JInt n) = Inr n"
| "py_int (JBool b) = Inr (if b then 1 else 0)"
| "py_int (JFloat q) = Inr (if 0 \<le> q then \<lfloor>q\<rfloor> else \<lceil>q\<rceil>)"
| "py_int (JStr s) = int_of_str s"
| "py_int JNull = Inl TypeError"
| "py_int (JArr xs) = Inl TypeError"
| "py_int (JObj kvs) = Inl TypeError"

text \<open>\<^verbatim>\<open>v / d\<close> for an integer constant \<open>d\<close>: defined on numbers (a bool counts as 0 or 1),
  TypeError on everything else.\<close>

fun truediv :: "json \<Rightarrow> int \<Rightarrow> error + rat" where
  "truediv (JInt n) d = Inr (of_int n / of_int d)"
| "truediv (JBool b) d = Inr ((if b then 1 else 0) / of_int d)"
| "truediv (JFloat q) d = Inr (q / of_int d)"
| "truediv JNull d = Inl TypeError"
| "truediv (JStr s) d = Inl TypeError"
| "truediv (JArr xs) d = Inl TypeError"
| "truediv (JObj kvs) d = Inl TypeError"

subsection \<open>The record loop (lines 9 to 25)\<close>

text \<open>The four parallel lists \<^verbatim>\<open>frames\<close>, \<^verbatim>\<open>object_counts\<close>, \<^verbatim>\<open>latencies\<close>, \<^verbatim>\<open>sizes\<close>.\<close>

record lists =
  frames :: "json list"
  object_counts :: "json list"
  latencies :: "rat list"
  sizes :: "rat list"

definition empty_lists :: lists where
  "empty_lists = \<lparr>frames = [], object_counts = [], latencies = [], sizes = []\<rparr>"

text \<open>The body of the inner loop after the line has been decoded. The source evaluates
  \<^verbatim>\<open>data['fields']\<close> and \<^verbatim>\<open>data['span']\<close> anew at every use, and so does the model. An
  exception ends the run, so the lists as they were when it was raised are not kept.\<close>

definition process_record :: "lists \<Rightarrow> json \<Rightarrow> error + lists" where
  "process_record st data =
     and_then (getitem data ''fields'') (\<lambda>fields0.
     and_then (contains ''latency_in_nanos'' fields0) (\<lambda>present.
       if \<not> present then Inr st
       else
     and_then (getitem data ''span'') (\<lambda>span1.
     and_then (getitem span1 ''frame_count'') (\<lambda>frame.
     and_then (getitem data ''span'') (\<lambda>span2.
     and_then (getitem span2 ''object_count'') (\<lambda>object_count.
     and_then (getitem data ''fields'') (\<lambda>fields1.
     and_then (getitem fields1 ''latency_in_nanos'') (\<lambda>nanos.
     and_then (py_int nanos) (\<lambda>n.
     and_then (getitem data ''fields'') (\<lambda>fields2.
     and_then (getitem fields2 ''msg_len'') (\<lambda>msg_len.
     and_then (truediv msg_len 1024) (\<lambda>kb.
       Inr \<lparr>frames = frames st @ [frame],
            object_counts = object_counts st @ [object_count],
            latencies = latencies st @ [of_int n / 1000000],
            sizes = sizes st @ [kb]\<rparr>))))))))))))"

fun process_line :: "lists \<Rightarrow> line \<Rightarrow> error + lists" where
  "process_line st Malformed = Inl JSONDecodeError"
| "process_line st (Parsed data) = process_record st data"

text \<open>\<^verbatim>\<open>for line in f\<close>.\<close>

fun process_file :: "lists \<Rightarrow> line list \<Rightarrow> error + lists" where
  "process_file st [] = Inr st"
| "process_file st (l # ls) = and_then (process_line st l) (\<lambda>st'. process_file st' ls)"

text \<open>\<^verbatim>\<open>for input_file in input_files\<close>; a file is the list of its lines.\<close>

fun process_files :: "lists \<Rightarrow> line list list \<Rightarrow> error + lists" where
  "process_files st [] = Inr st"
| "process_files st (f # fs) = and_then (process_file st f) (\<lambda>st'. process_files st' fs)"

subsection \<open>The data frame and its aggregation (lines 27 to 33)\<close>

text \<open>A row of the data frame with its four columns \<^verbatim>\<open>Frame\<close>, \<^verbatim>\<open>Object Count\<close>,
  \<^verbatim>\<open>Latency (ms)\<close> and \<^verbatim>\<open>Size (KB)\<close>, and a row once the frame column is dropped.\<close>

record row =
  Frame :: int
  Object_Count :: int
  Latency_ms :: rat
  Size_KB :: rat

record agg_row =
  object_count :: int
  latency_ms :: rat
  size_kb :: rat

text \<open>The key columns hold integers in the data model of the repository (frame and object
  counters). A key column with any other value (a float, a string, \<^verbatim>\<open>null\<close>, a list)
  is outside this development: \<open>DataFrame\<close> is \<open>None\<close> there, which stands for
  no Python behaviour.\<close>

fun int_column :: "json list \<Rightarrow> int list option" where
  "int_column [] = Some []"
| "int_column (JInt n # vs) = map_option ((#) n) (int_column vs)"
| "int_column (v # vs) = None"

definition DataFrame :: "lists \<Rightarrow> row list option" where
  "DataFrame st =
     (case (int_column (frames st), int_column (object_counts st)) of
        (Some fs, Some cs) \<Rightarrow>
          Some (map (\<lambda>(f, c, l, s). \<lparr>Frame = f, Object_Count = c, Latency_ms = l, Size_KB = s\<rparr>)
                    (zip fs (zip cs (zip (latencies st) (sizes st)))))
      | _ \<Rightarrow> None)"

text \<open>\<^verbatim>\<open>df.groupby(keys)\<close>: one group per distinct key, the groups in ascending order of the
  key, the rows of a group in the order of the frame.\<close>

definition groupby :: "('r \<Rightarrow> 'k::linorder) \<Rightarrow> 'r list \<Rightarrow> ('k \<times> 'r list) list" where
  "groupby key df = map (\<lambda>k. (k, filter (\<lambda>r. key r = k) df)) (sort (remdups (map key df)))"

text \<open>\<^verbatim>\<open>df.groupby(['Frame', 'Object Count']).sum().reset_index()\<close>.\<close>

definition groupby_sum :: "row list \<Rightarrow> row list" where
  "groupby_sum df =
     map (\<lambda>((f, c), g). \<lparr>Frame = f, Object_Count = c,
                           Latency_ms = sum_list (map Latency_ms g),
                           Size_KB = sum_list (map Size_KB g)\<rparr>)
         (groupby (\<lambda>r. (Frame r, Object_Count r)) df)"

text \<open>\<^verbatim>\<open>df.drop(columns=['Frame'])\<close>.\<close>

definition drop_Frame :: "row \<Rightarrow> agg_row" where
  "drop_Frame r = \<lparr>object_count = Object_Count r, latency_ms = Latency_ms r, size_kb = Size_KB r\<rparr>"

text \<open>The mean of a column of a group (a group is never empty).\<close>

definition mean :: "rat list \<Rightarrow> rat" where
  "mean xs = sum_list xs / of_nat (length xs)"

text \<open>\<^verbatim>\<open>df.groupby(['Object Count']).mean().reset_index()\<close>.\<close>

definition groupby_mean :: "agg_row list \<Rightarrow> agg_row list" where
  "groupby_mean df =
     map (\<lambda>(c, g). \<lparr>object_count = c,
                      latency_ms = mean (map latency_ms g),
                      size_kb = mean (map size_kb g)\<rparr>)
         (groupby object_count df)"

text \<open>\<^verbatim>\<open>df.sort_values(by='Object Count')\<close>.\<close>

definition sort_values :: "agg_row list \<Rightarrow> agg_row list" where
  "sort_values df = sort_key object_count df"

definition aggregate :: "row list \<Rightarrow> agg_row list" where
  "aggregate df = sort_values (groupby_mean (map drop_Frame (groupby_sum df)))"

text \<open>The program up to line 33: the loop over the files, the data frame, the aggregation.
  The result is \<open>Some (Inl e)\<close> when the run is aborted by the exception \<open>e\<close>,
  \<open>Some (Inr df)\<close> when it reaches the trend fit with the table \<open>df\<close>, and \<open>None\<close> when a key
  column holds a value that is not an integer.\<close>

definition main :: "line list list \<Rightarrow> (error + agg_row list) option" where
  "main input_files =
     (case process_files empty_lists input_files of
        Inl e \<Rightarrow> Some (Inl e)
      | Inr st \<Rightarrow> map_option (\<lambda>df. Inr (aggregate df)) (DataFrame st))"

subsection \<open>The example input of the specification\<close>

text \<open>The two records of the end-to-end example, as \<^verbatim>\<open>json.loads\<close> returns them.\<close>

definition example_record1 :: json where
  "example_record1 =
     JObj [(''span'', JObj [(''frame_count'', JInt 1), (''object_count'', JInt 10)]),
           (''fields'', JObj [(''latency_in_nanos'', JInt 5000000), (''msg_len'', JInt 2048)])]"

definition example_record2 :: json where
  "example_record2 =
     JObj [(''span'', JObj [(''frame_count'', JInt 2), (''object_count'', JInt 10)]),
           (''fields'', JObj [(''latency_in_nanos'', JInt 15000000), (''msg_len'', JInt 4096)])]"

text \<open>A record that carries no latency (and no span), and a record with no \<^verbatim>\<open>fields\<close> key.\<close>

definition record_without_latency :: json where
  "record_without_latency = JObj [(''fields'', JObj [(''msg_len'', JInt 2048)])]"

definition record_without_fields :: json where
  "record_without_fields =
     JObj [(''span'', JObj [(''frame_count'', JInt 1), (''object_count'', JInt 10)])]"

subsection \<open>Auxiliary notions for the proofs\<close>


definition append_rows :: "lists \<Rightarrow> (json \<times> json \<times> rat \<times> rat) list \<Rightarrow> lists" where
  "append_rows st ks =
     \<lparr>frames = frames st @ map fst ks,
      object_counts = object_counts st @ map (\<lambda>k. fst (snd k)) ks,
      latencies = latencies st @ map (\<lambda>k. fst (snd (snd k))) ks,
      sizes = sizes st @ map (\<lambda>k. snd (snd (snd k))) ks\<rparr>"

fun row_of :: "json \<times> json \<times> rat \<times> rat \<Rightarrow> row option" where
  "row_of (JInt f, JInt c, l, s) =
     Some \<lparr>Frame = f, Object_Count = c, Latency_ms = l, Size_KB = s\<rparr>"
| "row_of k = None"

subsection \<open>The two-stage reduction in the words of the specification\<close>

text \<open>Stage 1 sums a column over the records of one (frame, object count) pair. Stage 2
  takes, for an object count, the arithmetic mean of the stage-1 sums over the frames that
  have a record with that object count. The table has one row per object count, in
  ascending order.\<close>

definition stage1_sum :: "(row \<Rightarrow> rat) \<Rightarrow> row list \<Rightarrow> int \<Rightarrow> int \<Rightarrow> rat" where
  "stage1_sum col df f c =
     sum_list (map col (filter (\<lambda>r. Frame r = f \<and> Object_Count r = c) df))"

definition frames_at :: "row list \<Rightarrow> int \<Rightarrow> int set" where
  "frames_at df c = Frame ` set (filter (\<lambda>r. Object_Count r = c) df)"

definition mean_over_frames :: "(row \<Rightarrow> rat) \<Rightarrow> row list \<Rightarrow> int \<Rightarrow> rat" where
  "mean_over_frames col df c =
     (\<Sum>f \<in> frames_at df c. stage1_sum col df f c) / of_nat (card (frames_at df c))"

definition two_stage :: "row list \<Rightarrow> agg_row list" where
  "two_stage df =
     map (\<lambda>c. \<lparr>object_count = c,
                 latency_ms = mean_over_frames Latency_ms df c,
                 size_kb = mean_over_frames Size_KB df c\<rparr>)
         (sorted_list_of_set (Object_Count ` set df))"

section \<open>Properties\<close>

subsection \<open>The record loop\<close>

lemma and_then_Inl [simp]: "and_then (Inl e) f = Inl e"
  by (simp add: and_then_def)

lemma and_then_Inr [simp]: "and_then (Inr v) f = f v"
  by (simp add: and_then_def)

lemma and_then_eq_Inr: "and_then r f = Inr y \<longleftrightarrow> (\<exists>v. r = Inr v \<and> f v = Inr y)"
  by (cases r) simp_all

lemma process_file_append:
  "process_file st (xs @ ys) = and_then (process_file st xs) (\<lambda>st'. process_file st' ys)"
proof (induction xs arbitrary: st)
  case Nil
  show ?case by simp
next
  case (Cons l xs)
  show ?case
  proof (cases "process_line st l")
    case (Inl e)
    then show ?thesis by simp
  next
    case (Inr st1)
    then show ?thesis using Cons.IH [of st1] by simp
  qed
qed

lemma process_files_concat: "process_files st fs = process_file st (concat fs)"
proof (induction fs arbitrary: st)
  case Nil
  show ?case by simp
next
  case (Cons f fs)
  show ?case
    by (cases "process_file st f") (simp_all add: process_file_append Cons.IH)
qed

lemma contains_obj_iff: "contains k (JObj fs) = Inr (map_of fs k \<noteq> None)"
  by (simp add: map_of_eq_None_iff)

lemma skip_record:
  assumes "getitem data ''fields'' = Inr (JObj fs)" and "map_of fs ''latency_in_nanos'' = None"
  shows "process_record st data = Inr st"
  using assms by (simp add: process_record_def map_of_eq_None_iff)

lemma keep_record:
  assumes "getitem data ''fields'' = Inr (JObj fs)" and "map_of fs ''latency_in_nanos'' = Some v"
  shows "process_record st data =
     and_then (getitem data ''span'') (\<lambda>span1.
     and_then (getitem span1 ''frame_count'') (\<lambda>frame.
     and_then (getitem data ''span'') (\<lambda>span2.
     and_then (getitem span2 ''object_count'') (\<lambda>object_count.
     and_then (py_int v) (\<lambda>n.
     and_then (getitem (JObj fs) ''msg_len'') (\<lambda>msg_len.
     and_then (truediv msg_len 1024) (\<lambda>kb.
       Inr \<lparr>frames = frames st @ [frame],
            object_counts = object_counts st @ [object_count],
            latencies = latencies st @ [of_int n / 1000000],
            sizes = sizes st @ [kb]\<rparr>)))))))"
proof -
  have "''latency_in_nanos'' \<in> fst ` set fs"
    using assms(2) by (metis map_of_eq_None_iff option.distinct(1))
  then show ?thesis using assms by (simp add: process_record_def)
qed

lemmas pipeline_defs =
  main_def process_record_def empty_lists_def DataFrame_def aggregate_def
  groupby_sum_def groupby_def drop_Frame_def groupby_mean_def mean_def sort_values_def

text \<open>Claim C2. On the input of two lines holding the two example records (frame 1 and
  frame 2, both with object count 10, latencies 5000000 ns and 15000000 ns, sizes 2048 and
  4096 bytes), the program reaches the trend fit with a table of exactly one row:
  object count 10, latency 10.0 ms, size 3.0 KB.\<close>

theorem end_to_end_example:
  "main [[Parsed example_record1, Parsed example_record2]] =
     Some (Inr [\<lparr>object_count = 10, latency_ms = 10, size_kb = 3\<rparr>])"
  by (simp add: pipeline_defs example_record1_def example_record2_def)

text \<open>Claim C3. For a kept record whose \<^verbatim>\<open>fields\<close> object holds the integers \<open>n\<close> under
  \<^verbatim>\<open>latency_in_nanos\<close> and \<open>m\<close> under \<^verbatim>\<open>msg_len\<close>, the values appended to the latency and size
  lists are the quotients \<open>n / 1000000\<close> and \<open>m / 1024\<close>, and nothing else is done to
  them.\<close>

theorem unit_conversion:
  assumes "getitem data ''fields'' = Inr (JObj fs)"
    and "map_of fs ''latency_in_nanos'' = Some (JInt n)"
    and "map_of fs ''msg_len'' = Some (JInt m)"
    and "process_record st data = Inr st'"
  shows "latencies st' = latencies st @ [of_int n / 1000000] \<and>
         sizes st' = sizes st @ [of_int m / 1024]"
  using assms(4) unfolding keep_record [OF assms(1,2)]
  by (auto simp: and_then_eq_Inr assms(3))

theorem unit_conversion_witness:
  "process_record empty_lists example_record1 =
     Inr \<lparr>frames = [JInt 1], object_counts = [JInt 10], latencies = [5], sizes = [2]\<rparr> \<and>
   latencies \<lparr>frames = [JInt 1], object_counts = [JInt 10], latencies = [5], sizes = [2]\<rparr> =
     latencies empty_lists @ [of_int 5000000 / 1000000] \<and>
   sizes \<lparr>frames = [JInt 1], object_counts = [JInt 10], latencies = [5], sizes = [2]\<rparr> =
     sizes empty_lists @ [of_int 2048 / 1024]"
proof -
  have f: "getitem example_record1 ''fields'' =
      Inr (JObj [(''latency_in_nanos'', JInt 5000000), (''msg_len'', JInt 2048)])"
    by (simp add: example_record1_def)
  have r: "process_record empty_lists example_record1 =
      Inr \<lparr>frames = [JInt 1], object_counts = [JInt 10], latencies = [5], sizes = [2]\<rparr>"
    by (simp add: process_record_def example_record1_def empty_lists_def)
  have "latencies \<lparr>frames = [JInt 1], object_counts = [JInt 10], latencies = [5], sizes = [2]\<rparr> =
     latencies empty_lists @ [of_int 5000000 / 1000000] \<and>
   sizes \<lparr>frames = [JInt 1], object_counts = [JInt 10], latencies = [5], sizes = [2]\<rparr> =
     sizes empty_lists @ [of_int 2048 / 1024]"
    by (rule unit_conversion [OF f _ _ r]) simp_all
  with r show ?thesis by simp
qed


lemma main_Inl: "process_files empty_lists fs = Inl e \<Longrightarrow> main fs = Some (Inl e)"
  by (simp add: main_def)

lemma abort_at_line:
  assumes "process_files empty_lists (before @ [pre]) = Inr st"
    and "process_line st l = Inl e"
  shows "main (before @ (pre @ l # post) # after) = Some (Inl e)"
proof -
  have "process_file empty_lists (concat before @ pre) = Inr st"
    using assms(1) by (simp add: process_files_concat)
  then have "process_file empty_lists ((concat before @ pre) @ l # post @ concat after) = Inl e"
    unfolding process_file_append [of _ "concat before @ pre"] using assms(2) by simp
  then show ?thesis
    by (intro main_Inl) (simp add: process_files_concat)
qed



lemma process_file_skip:
  assumes "\<And>st. process_line st l = Inr st"
  shows "process_file st (pre @ l # post) = process_file st (pre @ post)"
proof (cases "process_file st pre")
  case (Inl e)
  then show ?thesis by (simp add: process_file_append)
next
  case (Inr st1)
  then show ?thesis by (simp add: process_file_append assms)
qed

lemma main_skip:
  assumes "\<And>st. process_line st l = Inr st"
  shows "main (before @ (pre @ l # post) # after) = main (before @ (pre @ post) # after)"
proof -
  have "process_file empty_lists ((concat before @ pre) @ l # (post @ concat after)) =
        process_file empty_lists ((concat before @ pre) @ (post @ concat after))"
    using assms by (rule process_file_skip)
  then show ?thesis
    by (simp add: main_def process_files_concat)
qed

text \<open>Claim C4. A record whose \<^verbatim>\<open>fields\<close> object lacks \<^verbatim>\<open>latency_in_nanos\<close> is skipped
  without an exception: the lists are unchanged, and the run gives what it gives with the
  line removed, so the record reaches neither the latency nor the size aggregates. A record
  that is processed without an exception has added a row to the lists if and only if the
  field is present. A record of the shape of the data model (integer frame count, object
  count, message length and latency) that has the field is included.\<close>

theorem latency_presence_filter:
  assumes "getitem data ''fields'' = Inr (JObj fs)"
  shows "(map_of fs ''latency_in_nanos'' = None \<longrightarrow>
            process_record st data = Inr st \<and>
            main (before @ (pre @ Parsed data # post) # after) =
              main (before @ (pre @ post) # after)) \<and>
         (\<forall>st'. process_record st data = Inr st' \<longrightarrow>
            (map_of fs ''latency_in_nanos'' \<noteq> None \<longleftrightarrow>
               (\<exists>f c l s. st' = \<lparr>frames = frames st @ [f], object_counts = object_counts st @ [c],
                                   latencies = latencies st @ [l], sizes = sizes st @ [s]\<rparr>))) \<and>
         (\<forall>sp f c n m.
            getitem data ''span'' = Inr (JObj sp) \<and>
            map_of sp ''frame_count'' = Some (JInt f) \<and>
            map_of sp ''object_count'' = Some (JInt c) \<and>
            map_of fs ''latency_in_nanos'' = Some (JInt n) \<and>
            map_of fs ''msg_len'' = Some (JInt m) \<longrightarrow>
            process_record st data =
              Inr \<lparr>frames = frames st @ [JInt f], object_counts = object_counts st @ [JInt c],
                   latencies = latencies st @ [of_int n / 1000000],
                   sizes = sizes st @ [of_int m / 1024]\<rparr>)"
proof (intro conjI allI impI)
  assume a: "map_of fs ''latency_in_nanos'' = None"
  show "process_record st data = Inr st"
    using assms a by (rule skip_record)
  have "\<And>st. process_line st (Parsed data) = Inr st"
    using skip_record [OF assms a] by simp
  then show "main (before @ (pre @ Parsed data # post) # after) =
      main (before @ (pre @ post) # after)"
    by (rule main_skip)
next
  fix st'
  assume r: "process_record st data = Inr st'"
  show "map_of fs ''latency_in_nanos'' \<noteq> None \<longleftrightarrow>
     (\<exists>f c l s. st' = \<lparr>frames = frames st @ [f], object_counts = object_counts st @ [c],
                         latencies = latencies st @ [l], sizes = sizes st @ [s]\<rparr>)"
  proof (cases "map_of fs ''latency_in_nanos''")
    case None
    then have "st' = st" using skip_record [OF assms None, of st] r by simp
    moreover have "frames st \<noteq> frames st @ [f]" for f by simp
    ultimately show ?thesis using None
      by (metis lists.select_convs(1))
  next
    case (Some v)
    show ?thesis
      using r unfolding keep_record [OF assms Some]
      by (auto simp: and_then_eq_Inr Some)
  qed
next
  fix sp f c n m
  assume "getitem data ''span'' = Inr (JObj sp) \<and>
            map_of sp ''frame_count'' = Some (JInt f) \<and>
            map_of sp ''object_count'' = Some (JInt c) \<and>
            map_of fs ''latency_in_nanos'' = Some (JInt n) \<and>
            map_of fs ''msg_len'' = Some (JInt m)"
  then show "process_record st data =
              Inr \<lparr>frames = frames st @ [JInt f], object_counts = object_counts st @ [JInt c],
                   latencies = latencies st @ [of_int n / 1000000],
                   sizes = sizes st @ [of_int m / 1024]\<rparr>"
    by (simp add: keep_record [OF assms])
qed

theorem latency_presence_filter_witness:
  "process_record empty_lists record_without_latency = Inr empty_lists \<and>
   main [[Parsed example_record1, Parsed record_without_latency, Parsed example_record2]] =
     main [[Parsed example_record1, Parsed example_record2]] \<and>
   process_record empty_lists example_record1 =
     Inr \<lparr>frames = [JInt 1], object_counts = [JInt 10], latencies = [5], sizes = [2]\<rparr>"
proof -
  have 1: "getitem record_without_latency ''fields'' = Inr (JObj [(''msg_len'', JInt 2048)])"
    by (simp add: record_without_latency_def)
  have 2: "getitem example_record1 ''fields'' =
      Inr (JObj [(''latency_in_nanos'', JInt 5000000), (''msg_len'', JInt 2048)])"
    by (simp add: example_record1_def)
  have 3: "getitem example_record1 ''span'' =
      Inr (JObj [(''frame_count'', JInt 1), (''object_count'', JInt 10)])"
    by (simp add: example_record1_def)
  show ?thesis
    using latency_presence_filter [OF 1, of empty_lists "[]" "[Parsed example_record1]"
        "[Parsed example_record2]" "[]"]
      latency_presence_filter [OF 2, of empty_lists] 3
    by (simp add: empty_lists_def)
qed

text \<open>Claim C10. Only \<^verbatim>\<open>data['fields']\<close> is read before the presence check. A record whose
  \<^verbatim>\<open>fields\<close> object lacks \<^verbatim>\<open>latency_in_nanos\<close> is skipped whatever else it holds or misses
  (\<^verbatim>\<open>span\<close>, the two counters, \<^verbatim>\<open>msg_len\<close>); a record with no \<^verbatim>\<open>fields\<close> key raises
  \<^verbatim>\<open>KeyError('fields')\<close>, and the run is aborted with it when the lines before the record
  have been processed.\<close>

theorem presence_check_order:
  "(map_of kvs ''fields'' = Some (JObj fs) \<and> map_of fs ''latency_in_nanos'' = None \<longrightarrow>
      process_record st (JObj kvs) = Inr st) \<and>
   (map_of kvs ''fields'' = None \<longrightarrow>
      process_record st (JObj kvs) = Inl (KeyError ''fields'') \<and>
      (\<forall>st0. process_files empty_lists (before @ [pre]) = Inr st0 \<longrightarrow>
         main (before @ (pre @ Parsed (JObj kvs) # post) # after) =
           Some (Inl (KeyError ''fields''))))"
proof (intro conjI allI impI)
  assume "map_of kvs ''fields'' = Some (JObj fs) \<and> map_of fs ''latency_in_nanos'' = None"
  then show "process_record st (JObj kvs) = Inr st"
    by (intro skip_record [of _ fs]) simp_all
next
  assume a: "map_of kvs ''fields'' = None"
  then show "process_record st (JObj kvs) = Inl (KeyError ''fields'')"
    by (simp add: process_record_def)
  fix st0
  assume "process_files empty_lists (before @ [pre]) = Inr st0"
  then show "main (before @ (pre @ Parsed (JObj kvs) # post) # after) =
      Some (Inl (KeyError ''fields''))"
    by (rule abort_at_line) (simp add: process_record_def a)
qed

theorem presence_check_order_witness:
  "process_record empty_lists record_without_latency = Inr empty_lists \<and>
   process_record empty_lists record_without_fields = Inl (KeyError ''fields'') \<and>
   main [[Parsed example_record1], [Parsed record_without_fields, Parsed example_record2]] =
     Some (Inl (KeyError ''fields''))"
proof -
  have 1: "process_files empty_lists ([[Parsed example_record1]] @ [[]]) =
      Inr \<lparr>frames = [JInt 1], object_counts = [JInt 10], latencies = [5], sizes = [2]\<rparr>"
    by (simp add: process_record_def example_record1_def empty_lists_def)
  show ?thesis
    using presence_check_order [of "[(''fields'', JObj [(''msg_len'', JInt 2048)])]"
        "[(''msg_len'', JInt 2048)]" empty_lists]
      presence_check_order [of
        "[(''span'', JObj [(''frame_count'', JInt 1), (''object_count'', JInt 10)])]" _
        empty_lists "[[Parsed example_record1]]" "[]" "[Parsed example_record2]" "[]"] 1
    by (simp add: record_without_latency_def record_without_fields_def)
qed

subsection \<open>The aggregation\<close>

lemma sort_remdups_set: "sort (remdups xs) = sorted_list_of_set (set xs)"
  by (simp add: sorted_list_of_set_sort_remdups)

lemma groupby_keys: "map fst (groupby key df) = sorted_list_of_set (key ` set df)"
  by (simp add: groupby_def comp_def sort_remdups_set)

lemma sum_list_map_mset:
  fixes f :: "'a \<Rightarrow> rat"
  assumes "mset xs = mset ys"
  shows "sum_list (map f xs) = sum_list (map f ys)"
proof -
  have "sum_list (map f xs) = sum_mset (image_mset f (mset xs))"
    by (metis mset_map sum_mset_sum_list)
  also have "\<dots> = sum_mset (image_mset f (mset ys))"
    using assms by simp
  also have "\<dots> = sum_list (map f ys)"
    by (metis mset_map sum_mset_sum_list)
  finally show ?thesis .
qed

lemma groupby_sum_mset:
  assumes "mset df = mset df'"
  shows "groupby_sum df = groupby_sum df'"
proof -
  have s: "set df = set df'"
    using assms by (rule mset_eq_setD)
  have g: "mset (filter P df) = mset (filter P df')" for P
    using assms by simp
  have "sum_list (map col (filter P df)) = sum_list (map col (filter P df'))"
    for P and col :: "row \<Rightarrow> rat"
    using g [of P] by (rule sum_list_map_mset)
  then show ?thesis
    by (simp add: groupby_sum_def groupby_def sort_remdups_set s)
qed

lemma aggregate_mset:
  assumes "mset df = mset df'"
  shows "aggregate df = aggregate df'"
  by (simp add: aggregate_def groupby_sum_mset [OF assms])

lemma object_counts_groupby_mean:
  "map object_count (groupby_mean df) = sorted_list_of_set (object_count ` set df)"
  by (simp add: groupby_mean_def groupby_def comp_def sort_remdups_set case_prod_beta)

lemma sort_values_groupby_mean: "sort_values (groupby_mean df) = groupby_mean df"
  unfolding sort_values_def
  by (rule sort_key_id_if_sorted) (simp add: object_counts_groupby_mean)

lemma aggregate_unsorted: "aggregate df = groupby_mean (map drop_Frame (groupby_sum df))"
  by (simp add: aggregate_def sort_values_groupby_mean)

lemma set_groupby_sum_keys:
  "Object_Count ` set (groupby_sum df) = Object_Count ` set df"
  by (force simp: groupby_sum_def groupby_def image_iff)

lemma object_counts_aggregate:
  "map object_count (aggregate df) = sorted_list_of_set (Object_Count ` set df)"
proof -
  have "object_count ` set (map drop_Frame (groupby_sum df)) = Object_Count ` set df"
    by (simp add: image_image drop_Frame_def set_groupby_sum_keys)
  then show ?thesis
    by (simp only: aggregate_unsorted object_counts_groupby_mean)
qed

lemma main_Inr:
  "main fs = Some (Inr tbl) \<Longrightarrow> \<exists>df. tbl = aggregate df"
  by (auto simp: main_def split: sum.splits)

text \<open>Claim C5. The object counts of the aggregated table are in strictly ascending order
  and no object count occurs in two rows; this holds for every data frame, and so for the
  table of every run that reaches the trend fit.\<close>

theorem sorted_unique_object_counts:
  "sorted_wrt (<) (map object_count (aggregate df)) \<and>
   distinct (map object_count (aggregate df)) \<and>
   (\<forall>tbl. main input_files = Some (Inr tbl) \<longrightarrow>
      sorted_wrt (<) (map object_count tbl) \<and> distinct (map object_count tbl))"
proof -
  have *: "sorted_wrt (<) (map object_count (aggregate d)) \<and>
     distinct (map object_count (aggregate d))" for d
    by (simp add: object_counts_aggregate strict_sorted_iff)
  show ?thesis
    using * main_Inr by blast
qed

theorem sorted_unique_object_counts_witness:
  "main [[Parsed example_record1, Parsed example_record2]] =
     Some (Inr [\<lparr>object_count = 10, latency_ms = 10, size_kb = 3\<rparr>]) \<and>
   sorted_wrt (<) (map object_count [\<lparr>object_count = 10, latency_ms = 10, size_kb = 3\<rparr>]) \<and>
   distinct (map object_count [\<lparr>object_count = 10, latency_ms = 10, size_kb = 3\<rparr>])"
proof -
  have m: "main [[Parsed example_record1, Parsed example_record2]] =
     Some (Inr [\<lparr>object_count = 10, latency_ms = 10, size_kb = 3\<rparr>])"
    by (simp add: pipeline_defs example_record1_def example_record2_def)
  from sorted_unique_object_counts [of "[]" "[[Parsed example_record1, Parsed example_record2]]"] m
  show ?thesis by blast
qed

lemma append_rows_Nil [simp]: "append_rows st [] = st"
  by (simp add: append_rows_def)







lemma row_of_Some_iff:
  "row_of (a, b, l, s) = Some r \<longleftrightarrow>
     (\<exists>f c. a = JInt f \<and> b = JInt c \<and>
        r = \<lparr>Frame = f, Object_Count = c, Latency_ms = l, Size_KB = s\<rparr>)"
  by (cases a; cases b) auto










lemma groupby_sum_stage1:
  "groupby_sum df =
     map (\<lambda>k. \<lparr>Frame = fst k, Object_Count = snd k,
                 Latency_ms = stage1_sum Latency_ms df (fst k) (snd k),
                 Size_KB = stage1_sum Size_KB df (fst k) (snd k)\<rparr>)
         (sorted_list_of_set ((\<lambda>r. (Frame r, Object_Count r)) ` set df))"
  by (simp add: groupby_sum_def groupby_def sort_remdups_set stage1_sum_def comp_def
      case_prod_beta prod_eq_iff)

lemma mean_over_group:
  fixes g :: "int \<times> int \<Rightarrow> rat"
  assumes d: "distinct ks" and s: "set ks = (\<lambda>f. (f, c)) ` F"
  shows "mean (map g ks) = (\<Sum>f \<in> F. g (f, c)) / of_nat (card F)"
proof -
  have inj: "inj_on (\<lambda>f. (f, c)) F"
    by (simp add: inj_on_def)
  have "sum_list (map g ks) = sum g (set ks)"
    using d by (simp add: sum.distinct_set_conv_list)
  also have "\<dots> = (\<Sum>f \<in> F. g (f, c))"
    unfolding s by (simp add: sum.reindex [OF inj])
  finally have 1: "sum_list (map g ks) = (\<Sum>f \<in> F. g (f, c))" .
  have "length ks = card (set ks)"
    using d by (simp add: distinct_card)
  also have "\<dots> = card F"
    unfolding s by (rule card_image [OF inj])
  finally have 2: "length ks = card F" .
  show ?thesis by (simp add: mean_def 1 2)
qed

lemma keys_at:
  "set (filter (\<lambda>k. snd k = c) (sorted_list_of_set ((\<lambda>r. (Frame r, Object_Count r)) ` set df))) =
     (\<lambda>f. (f, c)) ` frames_at df c"
  by (auto simp: frames_at_def image_iff)

lemma group_at:
  "filter (\<lambda>a. object_count a = c) (map drop_Frame (groupby_sum df)) =
     map (\<lambda>k. \<lparr>object_count = snd k,
                 latency_ms = stage1_sum Latency_ms df (fst k) (snd k),
                 size_kb = stage1_sum Size_KB df (fst k) (snd k)\<rparr>)
       (filter (\<lambda>k. snd k = c)
          (sorted_list_of_set ((\<lambda>r. (Frame r, Object_Count r)) ` set df)))"
  by (simp add: groupby_sum_stage1 filter_map comp_def drop_Frame_def)

lemma mean_of_group:
  "mean (map sel (filter (\<lambda>a. object_count a = c) (map drop_Frame (groupby_sum df)))) =
     (\<Sum>f \<in> frames_at df c. sel \<lparr>object_count = c,
         latency_ms = stage1_sum Latency_ms df f c,
         size_kb = stage1_sum Size_KB df f c\<rparr>) / of_nat (card (frames_at df c))"
proof -
  let ?ks = "filter (\<lambda>k. snd k = c)
          (sorted_list_of_set ((\<lambda>r. (Frame r, Object_Count r)) ` set df))"
  let ?g = "\<lambda>k. sel \<lparr>object_count = snd k,
                 latency_ms = stage1_sum Latency_ms df (fst k) (snd k),
                 size_kb = stage1_sum Size_KB df (fst k) (snd k)\<rparr>"
  have d: "distinct ?ks" by simp
  have "mean (map ?g ?ks) = (\<Sum>f \<in> frames_at df c. ?g (f, c)) / of_nat (card (frames_at df c))"
    using d keys_at by (rule mean_over_group)
  then show ?thesis
    by (simp add: group_at comp_def)
qed

lemma aggregate_two_stage: "aggregate df = two_stage df"
proof -
  have k: "(\<lambda>r. object_count (drop_Frame r)) ` set (groupby_sum df) = Object_Count ` set df"
    by (simp add: drop_Frame_def set_groupby_sum_keys)
  show ?thesis
    unfolding aggregate_unsorted two_stage_def mean_over_frames_def
    by (simp add: groupby_mean_def groupby_def sort_remdups_set k comp_def mean_of_group)
qed

text \<open>Claim C1. The aggregation is the two-stage reduction of the specification. Stage 1
  (\<open>groupby_sum\<close>) has one row per (frame, object count) pair of the data frame, holding the
  sums of the latencies and of the sizes of the records of that pair. The aggregated table
  has one row per object count, holding the arithmetic means, over the frames with that
  object count, of those stage-1 sums. For two records of one frame and one object count
  with latencies 10 ms and 20 ms, stage 1 yields the single row with latency 30 ms.\<close>

theorem two_stage_aggregation:
  "groupby_sum df =
     map (\<lambda>(f, c). \<lparr>Frame = f, Object_Count = c,
                      Latency_ms = stage1_sum Latency_ms df f c,
                      Size_KB = stage1_sum Size_KB df f c\<rparr>)
         (sorted_list_of_set ((\<lambda>r. (Frame r, Object_Count r)) ` set df)) \<and>
   aggregate df = two_stage df \<and>
   groupby_sum [\<lparr>Frame = f, Object_Count = c, Latency_ms = 10, Size_KB = s1\<rparr>,
                \<lparr>Frame = f, Object_Count = c, Latency_ms = 20, Size_KB = s2\<rparr>] =
     [\<lparr>Frame = f, Object_Count = c, Latency_ms = 30, Size_KB = s1 + s2\<rparr>]"
proof (intro conjI)
  show "groupby_sum df =
     map (\<lambda>(f, c). \<lparr>Frame = f, Object_Count = c,
                      Latency_ms = stage1_sum Latency_ms df f c,
                      Size_KB = stage1_sum Size_KB df f c\<rparr>)
         (sorted_list_of_set ((\<lambda>r. (Frame r, Object_Count r)) ` set df))"
    by (simp add: groupby_sum_stage1 case_prod_beta)
  show "aggregate df = two_stage df"
    by (rule aggregate_two_stage)
  show "groupby_sum [\<lparr>Frame = f, Object_Count = c, Latency_ms = 10, Size_KB = s1\<rparr>,
                \<lparr>Frame = f, Object_Count = c, Latency_ms = 20, Size_KB = s2\<rparr>] =
     [\<lparr>Frame = f, Object_Count = c, Latency_ms = 30, Size_KB = s1 + s2\<rparr>]"
    by (simp add: groupby_sum_def groupby_def)
qed

theorem two_stage_aggregation_witness:
  "aggregate [\<lparr>Frame = 1, Object_Count = 5, Latency_ms = 10, Size_KB = 1\<rparr>,
              \<lparr>Frame = 1, Object_Count = 5, Latency_ms = 20, Size_KB = 2\<rparr>,
              \<lparr>Frame = 2, Object_Count = 5, Latency_ms = 40, Size_KB = 4\<rparr>] =
     [\<lparr>object_count = 5, latency_ms = 35, size_kb = 7 / 2\<rparr>] \<and>
   two_stage [\<lparr>Frame = 1, Object_Count = 5, Latency_ms = 10, Size_KB = 1\<rparr>,
              \<lparr>Frame = 1, Object_Count = 5, Latency_ms = 20, Size_KB = 2\<rparr>,
              \<lparr>Frame = 2, Object_Count = 5, Latency_ms = 40, Size_KB = 4\<rparr>] =
     [\<lparr>object_count = 5, latency_ms = 35, size_kb = 7 / 2\<rparr>]"
proof -
  have "aggregate [\<lparr>Frame = 1, Object_Count = 5, Latency_ms = 10, Size_KB = 1\<rparr>,
              \<lparr>Frame = 1, Object_Count = 5, Latency_ms = 20, Size_KB = 2\<rparr>,
              \<lparr>Frame = 2, Object_Count = 5, Latency_ms = 40, Size_KB = 4\<rparr>] =
     [\<lparr>object_count = 5, latency_ms = 35, size_kb = 7 / 2\<rparr>]"
    by (simp add: pipeline_defs)
  then show ?thesis
    using two_stage_aggregation
      [of "[\<lparr>Frame = 1, Object_Count = 5, Latency_ms = 10, Size_KB = 1\<rparr>,
              \<lparr>Frame = 1, Object_Count = 5, Latency_ms = 20, Size_KB = 2\<rparr>,
              \<lparr>Frame = 2, Object_Count = 5, Latency_ms = 40, Size_KB = 4\<rparr>]" 0 0 0 0]
    by simp
qed

lemma filter_key_singleton:
  assumes "distinct (map key xs)" and "x \<in> set xs"
  shows "filter (\<lambda>y. key y = key x) xs = [x]"
  using assms
proof (induction xs)
  case Nil
  then show ?case by simp
next
  case (Cons a xs)
  show ?case
  proof (cases "a = x")
    case True
    have "\<forall>y \<in> set xs. key y \<noteq> key x"
      using Cons.prems(1) True by (auto simp: image_iff)
    then have "filter (\<lambda>y. key y = key x) xs = []"
      by (simp add: filter_empty_conv)
    then show ?thesis using True by simp
  next
    case False
    then have x: "x \<in> set xs" using Cons.prems(2) by simp
    then have "key a \<noteq> key x" using Cons.prems(1) by (auto simp: image_iff)
    then show ?thesis using Cons.IH x Cons.prems(1) by simp
  qed
qed

lemma mean_over_frames_single:
  assumes d: "distinct (map Object_Count df)" and r: "r \<in> set df"
  shows "mean_over_frames col df (Object_Count r) = col r"
proof -
  have g: "filter (\<lambda>y. Object_Count y = Object_Count r) df = [r]"
    using d r by (rule filter_key_singleton)
  have "filter (\<lambda>y. Frame y = Frame r \<and> Object_Count y = Object_Count r) df =
      filter (\<lambda>y. Frame y = Frame r) (filter (\<lambda>y. Object_Count y = Object_Count r) df)"
    by (simp add: conj_commute)
  then have s: "stage1_sum col df (Frame r) (Object_Count r) = col r"
    by (simp add: stage1_sum_def g)
  have f: "frames_at df (Object_Count r) = {Frame r}"
    by (simp add: frames_at_def g)
  show ?thesis
    by (simp add: mean_over_frames_def f s)
qed

lemma aggregate_fixed:
  assumes "sorted_wrt (<) (map Object_Count df)"
  shows "aggregate df = map drop_Frame df"
proof -
  have s: "sorted (map Object_Count df)" and d: "distinct (map Object_Count df)"
    using assms by (simp_all add: strict_sorted_iff)
  have k: "sorted_list_of_set (Object_Count ` set df) = map Object_Count df"
    by (rule sorted_distinct_set_unique) (simp_all add: s d)
  show ?thesis
    unfolding aggregate_two_stage two_stage_def k
    by (simp add: drop_Frame_def mean_over_frames_single [OF d])
qed

lemma aggregate_distinct:
  assumes "distinct (map Object_Count df)"
  shows "aggregate df = map drop_Frame (sort_key Object_Count df)"
proof -
  let ?s = "sort_key Object_Count df"
  have m: "mset ?s = mset df" by simp
  have "mset (map Object_Count ?s) = mset (map Object_Count df)"
    by simp
  then have "distinct (map Object_Count ?s)"
    using assms mset_eq_imp_distinct_iff by blast
  moreover have "sorted (map Object_Count ?s)" by simp
  ultimately have "sorted_wrt (<) (map Object_Count ?s)"
    by (simp add: strict_sorted_iff)
  then have "aggregate ?s = map drop_Frame ?s" by (rule aggregate_fixed)
  moreover have "aggregate ?s = aggregate df" using m by (rule aggregate_mset)
  ultimately show ?thesis by simp
qed

text \<open>Claim C6. The aggregation is idempotent. A data frame with one row per object count
  is returned with the same rows, in ascending order of the object count and without the
  frame column; when its object counts are already ascending, as in an aggregated table, it
  is returned as it is. So aggregating an aggregated table again, whatever frame column is
  put back on it, returns that table.\<close>

theorem aggregate_idempotent:
  "(distinct (map Object_Count df) \<longrightarrow>
      aggregate df = map drop_Frame (sort_key Object_Count df)) \<and>
   (sorted_wrt (<) (map Object_Count df) \<longrightarrow> aggregate df = map drop_Frame df) \<and>
   (map drop_Frame df' = aggregate df0 \<longrightarrow> aggregate df' = aggregate df0)"
proof (intro conjI impI)
  assume "distinct (map Object_Count df)"
  then show "aggregate df = map drop_Frame (sort_key Object_Count df)"
    by (rule aggregate_distinct)
next
  assume "sorted_wrt (<) (map Object_Count df)"
  then show "aggregate df = map drop_Frame df" by (rule aggregate_fixed)
next
  assume a: "map drop_Frame df' = aggregate df0"
  have "map Object_Count df' = map object_count (map drop_Frame df')"
    by (simp add: drop_Frame_def)
  also have "\<dots> = sorted_list_of_set (Object_Count ` set df0)"
    by (simp only: a object_counts_aggregate)
  finally have "sorted_wrt (<) (map Object_Count df')"
    by (simp add: strict_sorted_iff)
  then have "aggregate df' = map drop_Frame df'" by (rule aggregate_fixed)
  then show "aggregate df' = aggregate df0" using a by simp
qed

theorem aggregate_idempotent_witness:
  "aggregate [\<lparr>Frame = 1, Object_Count = 5, Latency_ms = 10, Size_KB = 1\<rparr>,
              \<lparr>Frame = 2, Object_Count = 5, Latency_ms = 40, Size_KB = 4\<rparr>,
              \<lparr>Frame = 1, Object_Count = 3, Latency_ms = 7, Size_KB = 2\<rparr>] =
     [\<lparr>object_count = 3, latency_ms = 7, size_kb = 2\<rparr>,
      \<lparr>object_count = 5, latency_ms = 25, size_kb = 5 / 2\<rparr>] \<and>
   aggregate [\<lparr>Frame = 9, Object_Count = 3, Latency_ms = 7, Size_KB = 2\<rparr>,
              \<lparr>Frame = 8, Object_Count = 5, Latency_ms = 25, Size_KB = 5 / 2\<rparr>] =
     [\<lparr>object_count = 3, latency_ms = 7, size_kb = 2\<rparr>,
      \<lparr>object_count = 5, latency_ms = 25, size_kb = 5 / 2\<rparr>] \<and>
   aggregate [\<lparr>Frame = 8, Object_Count = 5, Latency_ms = 25, Size_KB = 5 / 2\<rparr>,
              \<lparr>Frame = 9, Object_Count = 3, Latency_ms = 7, Size_KB = 2\<rparr>] =
     [\<lparr>object_count = 3, latency_ms = 7, size_kb = 2\<rparr>,
      \<lparr>object_count = 5, latency_ms = 25, size_kb = 5 / 2\<rparr>]"
proof -
  have 1: "aggregate [\<lparr>Frame = 1, Object_Count = 5, Latency_ms = 10, Size_KB = 1\<rparr>,
              \<lparr>Frame = 2, Object_Count = 5, Latency_ms = 40, Size_KB = 4\<rparr>,
              \<lparr>Frame = 1, Object_Count = 3, Latency_ms = 7, Size_KB = 2\<rparr>] =
     [\<lparr>object_count = 3, latency_ms = 7, size_kb = 2\<rparr>,
      \<lparr>object_count = 5, latency_ms = 25, size_kb = 5 / 2\<rparr>]"
    by (simp add: pipeline_defs)
  show ?thesis
    using aggregate_idempotent
      [of "[\<lparr>Frame = 8, Object_Count = 5, Latency_ms = 25, Size_KB = 5 / 2\<rparr>,
              \<lparr>Frame = 9, Object_Count = 3, Latency_ms = 7, Size_KB = 2\<rparr>]"
          "[\<lparr>Frame = 9, Object_Count = 3, Latency_ms = 7, Size_KB = 2\<rparr>,
              \<lparr>Frame = 8, Object_Count = 5, Latency_ms = 25, Size_KB = 5 / 2\<rparr>]"
          "[\<lparr>Frame = 1, Object_Count = 5, Latency_ms = 10, Size_KB = 1\<rparr>,
              \<lparr>Frame = 2, Object_Count = 5, Latency_ms = 40, Size_KB = 4\<rparr>,
              \<lparr>Frame = 1, Object_Count = 3, Latency_ms = 7, Size_KB = 2\<rparr>]"]
    by (simp add: 1 drop_Frame_def)
qed

end
